theory Spec2Isabelle
  imports Main "HOL-Library.Word" "HOL-Library.Sublist" "HOL-Library.Monad_Syntax"
begin

unbundle bit_operations_syntax

section \<open>JavaScript strings\<close>

text \<open>
  A JavaScript string is a finite sequence of 16-bit code units. Literals of the source
  are written with \<open>ascii\<close>, which maps each character of an ASCII literal to its code
  unit.
\<close>

type_synonym jsstring = "16 word list"

definition ascii :: "string \<Rightarrow> jsstring" where
  "ascii s = map (\<lambda>c. of_nat (of_char c)) s"

text \<open>
  \<open>String.prototype.trim\<close> removes leading and trailing white space and line
  terminators: TAB, LF, VT, FF, CR, SP, NBSP, U+1680, U+2000 to U+200A, U+2028, U+2029,
  U+202F, U+205F, U+3000 and U+FEFF. All of them are single code units.
\<close>

definition is_whitespace :: "16 word \<Rightarrow> bool" where
  "is_whitespace c \<longleftrightarrow>
     c = 0x09 \<or> c = 0x0A \<or> c = 0x0B \<or> c = 0x0C \<or> c = 0x0D \<or> c = 0x20 \<or> c = 0xA0 \<or>
     c = 0x1680 \<or> (0x2000 \<le> c \<and> c \<le> 0x200A) \<or> c = 0x2028 \<or> c = 0x2029 \<or>
     c = 0x202F \<or> c = 0x205F \<or> c = 0x3000 \<or> c = 0xFEFF"

definition trim :: "jsstring \<Rightarrow> jsstring" where
  "trim s = rev (dropWhile is_whitespace (rev (dropWhile is_whitespace s)))"

text \<open>The decimal digits of a non-negative integer, as a template literal prints it.\<close>

fun decimal :: "nat \<Rightarrow> jsstring" where
  "decimal n =
     (if n < 10 then [0x30 + of_nat n]
      else decimal (n div 10) @ [0x30 + of_nat (n mod 10)])"

declare decimal.simps [simp del]

section \<open>Items\<close>

text \<open>
  A todo is the object \<open>{ value, id, completed }\<close> that the input handler creates.
  The field \<open>id\<close> of the source is \<open>id'\<close> here.
\<close>

record todo =
  "value" :: jsstring
  id' :: jsstring
  completed :: bool

section \<open>The persistence format: JSON.stringify and JSON.parse on todo arrays\<close>

text \<open>
  \<open>saveTodos\<close> stores \<open>JSON.stringify(todos)\<close> and \<open>readTodosInStorage\<close> reads it back
  with \<open>JSON.parse\<close>. Both are built-ins; they are modelled here on arrays of todo
  objects, following ECMA-262.

  \<open>QuoteJSONString\<close> walks the code points of the string: a leading surrogate followed
  by a trailing one is copied as a pair; the seven characters with a short escape get it;
  other control characters and lone surrogates become \<open>\uXXXX\<close> with lower-case
  hexadecimal digits; every other code unit is copied.
\<close>

definition is_lead :: "16 word \<Rightarrow> bool" where
  "is_lead c \<longleftrightarrow> 0xD800 \<le> c \<and> c \<le> 0xDBFF"

definition is_trail :: "16 word \<Rightarrow> bool" where
  "is_trail c \<longleftrightarrow> 0xDC00 \<le> c \<and> c \<le> 0xDFFF"

definition hexdigit :: "16 word \<Rightarrow> 16 word" where
  "hexdigit d = (if d < 10 then 0x30 + d else 0x57 + d)"

definition UnicodeEscape :: "16 word \<Rightarrow> jsstring" where
  "UnicodeEscape c =
     [0x5C, 0x75, hexdigit (drop_bit 12 c), hexdigit (take_bit 4 (drop_bit 8 c)),
      hexdigit (take_bit 4 (drop_bit 4 c)), hexdigit (take_bit 4 c)]"

definition quoteUnit :: "16 word \<Rightarrow> jsstring" where
  "quoteUnit c =
     (if c = 0x08 then [0x5C, 0x62]
      else if c = 0x09 then [0x5C, 0x74]
      else if c = 0x0A then [0x5C, 0x6E]
      else if c = 0x0C then [0x5C, 0x66]
      else if c = 0x0D then [0x5C, 0x72]
      else if c = 0x22 then [0x5C, 0x22]
      else if c = 0x5C then [0x5C, 0x5C]
      else if c < 0x20 \<or> is_lead c \<or> is_trail c then UnicodeEscape c
      else [c])"

fun quoteUnits :: "jsstring \<Rightarrow> jsstring" where
  "quoteUnits (c # d # ds) =
     (if is_lead c \<and> is_trail d then c # d # quoteUnits ds
      else quoteUnit c @ quoteUnits (d # ds))"
| "quoteUnits [c] = quoteUnit c"
| "quoteUnits [] = []"

definition QuoteJSONString :: "jsstring \<Rightarrow> jsstring" where
  "QuoteJSONString s = 0x22 # quoteUnits s @ [0x22]"

text \<open>
  An object is serialised with its keys in creation order (\<open>value\<close>, \<open>id\<close>,
  \<open>completed\<close>; the spread copies of the toggle and edit handlers keep that order), an
  array with its elements separated by commas, and no white space.
\<close>

definition SerializeJSONObject :: "todo \<Rightarrow> jsstring" where
  "SerializeJSONObject t =
     ascii ''{'' @ QuoteJSONString (ascii ''value'') @ ascii '':'' @ QuoteJSONString (value t) @
     ascii '','' @ QuoteJSONString (ascii ''id'') @ ascii '':'' @ QuoteJSONString (id' t) @
     ascii '','' @ QuoteJSONString (ascii ''completed'') @ ascii '':'' @
     (if completed t then ascii ''true'' else ascii ''false'') @ ascii ''}''"

fun joinComma :: "jsstring list \<Rightarrow> jsstring" where
  "joinComma [] = []"
| "joinComma [x] = x"
| "joinComma (x # y # ys) = x @ ascii '','' @ joinComma (y # ys)"

definition JSON_stringify :: "todo list \<Rightarrow> jsstring" where
  "JSON_stringify ts = ascii ''['' @ joinComma (map SerializeJSONObject ts) @ ascii '']''"

text \<open>
  The reader. A JSON string ends at the first unescaped quotation mark; an escape is
  \<open>\uXXXX\<close> (digits of either case) or one of the eight short ones; a raw control
  character is a syntax error.
\<close>

definition unhex :: "16 word \<Rightarrow> 16 word option" where
  "unhex c =
     (if 0x30 \<le> c \<and> c \<le> 0x39 then Some (c - 0x30)
      else if 0x61 \<le> c \<and> c \<le> 0x66 then Some (c - 0x57)
      else if 0x41 \<le> c \<and> c \<le> 0x46 then Some (c - 0x37)
      else None)"

definition hex4 :: "16 word \<Rightarrow> 16 word \<Rightarrow> 16 word \<Rightarrow> 16 word \<Rightarrow> 16 word option" where
  "hex4 a b c d =
     (case (unhex a, unhex b, unhex c, unhex d) of
        (Some x, Some y, Some z, Some w) \<Rightarrow>
          Some (push_bit 12 x OR push_bit 8 y OR push_bit 4 z OR w)
      | _ \<Rightarrow> None)"

definition unescape :: "16 word \<Rightarrow> 16 word option" where
  "unescape e =
     (if e = 0x22 then Some 0x22
      else if e = 0x5C then Some 0x5C
      else if e = 0x2F then Some 0x2F
      else if e = 0x62 then Some 0x08
      else if e = 0x66 then Some 0x0C
      else if e = 0x6E then Some 0x0A
      else if e = 0x72 then Some 0x0D
      else if e = 0x74 then Some 0x09
      else None)"

definition consTo ::
  "16 word \<Rightarrow> (jsstring \<times> jsstring) option \<Rightarrow> (jsstring \<times> jsstring) option" where
  "consTo u r = (case r of None \<Rightarrow> None | Some (v, rest) \<Rightarrow> Some (u # v, rest))"

text \<open>
  \<open>parseString\<close> reads the characters after an opening quotation mark and returns the
  string and the text after the closing one.
\<close>

fun parseString :: "jsstring \<Rightarrow> (jsstring \<times> jsstring) option" where
  "parseString [] = None"
| "parseString (c # cs) =
     (if c = 0x22 then Some ([], cs)
      else if c = 0x5C then
        (case cs of
           [] \<Rightarrow> None
         | e # r \<Rightarrow>
             if e = 0x75 then
               (case r of
                  h1 # h2 # h3 # h4 # r' \<Rightarrow>
                    (case hex4 h1 h2 h3 h4 of
                       None \<Rightarrow> None
                     | Some u \<Rightarrow> consTo u (parseString r'))
                | _ \<Rightarrow> None)
             else
               (case unescape e of
                  None \<Rightarrow> None
                | Some u \<Rightarrow> consTo u (parseString r)))
      else if c < 0x20 then None
      else consTo c (parseString cs))"

definition expect :: "jsstring \<Rightarrow> jsstring \<Rightarrow> jsstring option" where
  "expect p s = (if take (length p) s = p then Some (drop (length p) s) else None)"

definition parseQuoted :: "jsstring \<Rightarrow> (jsstring \<times> jsstring) option" where
  "parseQuoted s = do { r \<leftarrow> expect [0x22] s; parseString r }"

definition parseKey :: "jsstring \<Rightarrow> jsstring \<Rightarrow> jsstring option" where
  "parseKey k s = do {
     (k', r) \<leftarrow> parseQuoted s;
     if k' = k then expect (ascii '':'') r else None }"

definition parseBool :: "jsstring \<Rightarrow> (bool \<times> jsstring) option" where
  "parseBool s =
     (case expect (ascii ''true'') s of
        Some r \<Rightarrow> Some (True, r)
      | None \<Rightarrow> (case expect (ascii ''false'') s of Some r \<Rightarrow> Some (False, r) | None \<Rightarrow> None))"

definition parseTodo :: "jsstring \<Rightarrow> (todo \<times> jsstring) option" where
  "parseTodo s = do {
     r \<leftarrow> expect (ascii ''{'') s;
     r \<leftarrow> parseKey (ascii ''value'') r;
     (v, r) \<leftarrow> parseQuoted r;
     r \<leftarrow> expect (ascii '','') r;
     r \<leftarrow> parseKey (ascii ''id'') r;
     (i, r) \<leftarrow> parseQuoted r;
     r \<leftarrow> expect (ascii '','') r;
     r \<leftarrow> parseKey (ascii ''completed'') r;
     (b, r) \<leftarrow> parseBool r;
     r \<leftarrow> expect (ascii ''}'') r;
     Some (\<lparr>value = v, id' = i, completed = b\<rparr>, r) }"

lemma consTo_shorter:
  "consTo u p = Some (v, r) \<Longrightarrow> \<exists>v'. p = Some (v', r)"
  by (auto simp: consTo_def split: option.splits)

lemma parseString_shorter: "parseString s = Some (v, r) \<Longrightarrow> length r < length s"
proof (induction s arbitrary: v r rule: parseString.induct)
  case 1
  then show ?case by simp
next
  case (2 c cs)
  show ?case
  proof (cases "c = 0x22")
    case True
    with "2.prems" show ?thesis by simp
  next
    case quote: False
    show ?thesis
    proof (cases "c = 0x5C")
      case False
      with quote "2.prems" have "c \<ge> 0x20" and "consTo c (parseString cs) = Some (v, r)"
        by (auto split: if_splits)
      then obtain v' where "parseString cs = Some (v', r)"
        using consTo_shorter by blast
      with "2.IH"(3) [OF quote False] \<open>c \<ge> 0x20\<close> show ?thesis by fastforce
    next
      case True
      with quote "2.prems" obtain e t where cs: "cs = e # t"
        by (cases cs) auto
      show ?thesis
      proof (cases "e = 0x75")
        case False
        with quote True cs "2.prems" obtain u where u: "unescape e = Some u"
          and "consTo u (parseString t) = Some (v, r)"
          by (auto split: option.splits)
        then obtain v' where "parseString t = Some (v', r)"
          using consTo_shorter by blast
        with "2.IH"(2) [OF quote True cs False u] cs show ?thesis by fastforce
      next
        case u: True
        with quote True cs "2.prems" obtain h1 h2 h3 h4 t' where t: "t = h1 # h2 # h3 # h4 # t'"
          by (auto split: list.splits)
        with quote True cs u "2.prems" obtain w where w: "hex4 h1 h2 h3 h4 = Some w"
          and "consTo w (parseString t') = Some (v, r)"
          by (auto split: option.splits)
        then obtain v' where "parseString t' = Some (v', r)"
          using consTo_shorter by blast
        with "2.IH"(1) [OF quote True cs u t _ _ _ w] cs t show ?thesis by fastforce
      qed
    qed
  qed
qed

lemma expect_shorter: "expect p s = Some r \<Longrightarrow> length r \<le> length s"
  by (auto simp: expect_def split: if_splits)

lemma expect_nonempty_shorter: "expect p s = Some r \<Longrightarrow> p \<noteq> [] \<Longrightarrow> length r < length s"
  by (cases s) (auto simp: expect_def split: if_splits)

lemma parseQuoted_shorter: "parseQuoted s = Some (v, r) \<Longrightarrow> length r \<le> length s"
  by (auto simp: parseQuoted_def split: Option.bind_splits
      dest!: expect_shorter parseString_shorter)

lemma parseKey_shorter: "parseKey k s = Some r \<Longrightarrow> length r \<le> length s"
  by (auto simp: parseKey_def split: Option.bind_splits if_splits
      dest!: expect_shorter parseQuoted_shorter)

lemma parseBool_shorter: "parseBool s = Some (b, r) \<Longrightarrow> length r \<le> length s"
  by (auto simp: parseBool_def split: option.splits dest!: expect_shorter)

lemma parseTodo_shorter:
  assumes "parseTodo s = Some (t, r)"
  shows "length r < length s"
proof -
  from assms obtain r1 r2 v r3 r4 r5 i r6 r7 r8 b r9 where
    first: "expect (ascii ''{'') s = Some r1" and
    rest: "parseKey (ascii ''value'') r1 = Some r2"
    "parseQuoted r2 = Some (v, r3)"
    "expect (ascii '','') r3 = Some r4"
    "parseKey (ascii ''id'') r4 = Some r5"
    "parseQuoted r5 = Some (i, r6)"
    "expect (ascii '','') r6 = Some r7"
    "parseKey (ascii ''completed'') r7 = Some r8"
    "parseBool r8 = Some (b, r9)"
    "expect (ascii ''}'') r9 = Some r"
    by (auto simp: parseTodo_def split: Option.bind_splits)
  have "length r1 < length s"
    using first by (rule expect_nonempty_shorter) (simp add: ascii_def)
  moreover have "length r \<le> length r1"
    using rest by (auto dest!: expect_shorter parseKey_shorter
        parseQuoted_shorter parseBool_shorter)
  ultimately show ?thesis by simp
qed

text \<open>
  \<open>parseElements\<close> reads what follows an element of the array: the closing bracket at
  the end of the text, or a comma and another element.
\<close>

function parseElements :: "jsstring \<Rightarrow> todo list option" where
  "parseElements s =
     (if s = ascii '']'' then Some []
      else
        (case expect (ascii '','') s of
           None \<Rightarrow> None
         | Some r \<Rightarrow>
             (case parseTodo r of
                None \<Rightarrow> None
              | Some (t, r') \<Rightarrow> map_option (Cons t) (parseElements r'))))"
  by pat_completeness auto
termination
proof (relation "measure length")
  show "wf (measure length)" by simp
next
  fix s r :: jsstring and x t r'
  assume "expect (ascii '','') s = Some r" "parseTodo r = Some x" "(t, r') = x"
  then have "length r \<le> length s" "length r' < length r"
    by (auto dest: expect_shorter parseTodo_shorter)
  then show "(r', s) \<in> measure length" by simp
qed

declare parseElements.simps [simp del]

text \<open>
  \<open>JSON_parse\<close> is \<open>JSON.parse\<close> on the texts that \<open>JSON.stringify\<close> writes for an
  array of todos: no white space between tokens, the keys \<open>value\<close>, \<open>id\<close>,
  \<open>completed\<close> in this order. \<open>None\<close> stands for every other text; the model does
  not follow \<open>JSON.parse\<close> there (it throws a SyntaxError on some of them and returns
  a value of another shape on others).
\<close>

definition JSON_parse :: "jsstring \<Rightarrow> todo list option" where
  "JSON_parse s =
     (case expect (ascii ''['') s of
        None \<Rightarrow> None
      | Some r \<Rightarrow>
          if r = ascii '']'' then Some []
          else
            (case parseTodo r of
               None \<Rightarrow> None
             | Some (t, r') \<Rightarrow> map_option (Cons t) (parseElements r')))"

section \<open>The page\<close>

text \<open>
  \<open>createTodoItemEl\<close> builds one row: an \<open>li\<close> carrying the item's id in
  \<open>data-id\<close>, a toggle icon whose class shows the completion state, and an editable
  region holding the text, struck through when the item is completed.
\<close>

record li =
  dataset_id :: jsstring
  toggle_class :: jsstring
  value_class :: jsstring
  textContent :: jsstring

definition createTodoItemEl :: "todo \<Rightarrow> li" where
  "createTodoItemEl t =
     \<lparr>dataset_id = id' t,
      toggle_class = (if completed t then ascii ''bx-check-square'' else ascii ''bx-square''),
      value_class = (if completed t then ascii ''line-through'' else []),
      textContent = value t\<rparr>"

text \<open>
  What the handlers read of an event: the key, the legacy key code, the Shift state, and
  of its target the \<open>data-todo\<close> attribute (tested by \<open>matches\<close>) and the result of
  \<open>closest('[data-id]')\<close>, which is \<open>null\<close> when no enclosing element carries an id.
  The \<open>textContent\<close> of that row is the current text of its editable region.
\<close>

record element =
  data_todo :: "jsstring option"
  closest_data_id :: "li option"

record dom_event =
  key :: jsstring
  keyCode :: nat
  shiftKey :: bool
  target :: element

datatype error = TypeError | StoredDataUnreadable

datatype effect = PreventDefault | SetItem jsstring | Render

text \<open>
  The state of the page: the \<open>todos\<close> array of \<open>App\<close>, the value stored under the key
  \<open>'todos'\<close> in local storage (\<open>None\<close> when the key is absent), the fragment of the
  location, the children of the list element, the content of the counter element, and the
  effects performed so far, in order.
\<close>

record app =
  todos :: "todo list"
  localStorage :: "jsstring option"
  location_hash :: jsstring
  listEl :: "li list"
  countEl :: jsstring
  trace :: "effect list"

definition getURLHash :: "jsstring \<Rightarrow> jsstring" where
  "getURLHash h = (if take 2 h = ascii ''#/'' then drop 2 h else h)"

definition filterNotCompletedTodos :: "todo list \<Rightarrow> todo list" where
  "filterNotCompletedTodos ts = filter (\<lambda>todo. \<not> completed todo) ts"

definition saveTodos :: "app \<Rightarrow> app" where
  "saveTodos s =
     s\<lparr>localStorage := Some (JSON_stringify (todos s)),
       trace := trace s @ [SetItem (JSON_stringify (todos s))]\<rparr>"

text \<open>
  \<open>renderTodos\<close> sets the counter and the rows. (It then marks the filter link of the
  current filter, which touches neither of them and is left out.)
\<close>

definition renderTodos :: "app \<Rightarrow> app" where
  "renderTodos s =
     (let filter' = getURLHash (location_hash s);
          filterTodos =
            (if filter' = ascii ''active'' then filter (\<lambda>todo. \<not> completed todo) (todos s)
             else if filter' = ascii ''completed'' then filter (\<lambda>todo. completed todo) (todos s)
             else todos s)
      in s\<lparr>countEl := decimal (length (filterNotCompletedTodos (todos s))) @ ascii '' items left'',
           listEl := map createTodoItemEl filterTodos,
           trace := trace s @ [Render]\<rparr>)"

text \<open>The listener of the \<open>save\<close> event, which \<open>dispatchEvent\<close> runs synchronously.\<close>

definition save_listener :: "app \<Rightarrow> app" where
  "save_listener s = renderTodos (saveTodos s)"

text \<open>\<open>getItem(LOCAL_STORAGE_KEY) || '[]'\<close>: an absent key and the empty string give \<open>'[]'\<close>.\<close>

definition stored_text :: "jsstring option \<Rightarrow> jsstring" where
  "stored_text st =
     (case st of None \<Rightarrow> ascii ''[]'' | Some t \<Rightarrow> if t = [] then ascii ''[]'' else t)"

definition readTodosInStorage :: "app \<Rightarrow> error + app" where
  "readTodosInStorage s =
     (case JSON_parse (stored_text (localStorage s)) of
        None \<Rightarrow> Inl StoredDataUnreadable
      | Some ts \<Rightarrow> Inr (s\<lparr>todos := ts\<rparr>))"

subsection \<open>Handlers\<close>

text \<open>
  A handler returns the exception it threw, if any, and the state it left. An exception
  in a listener is reported as uncaught and the page goes on.

  \<open>Array.prototype.map\<close> and \<open>filter\<close> call their callback on each element in order, so
  an exception of the callback is thrown at the first element, and not at all on an empty
  array.
\<close>

fun Array_map :: "('a \<Rightarrow> error + 'b) \<Rightarrow> 'a list \<Rightarrow> error + 'b list" where
  "Array_map f [] = Inr []"
| "Array_map f (x # xs) =
     (case f x of
        Inl err \<Rightarrow> Inl err
      | Inr y \<Rightarrow> (case Array_map f xs of Inl err \<Rightarrow> Inl err | Inr ys \<Rightarrow> Inr (y # ys)))"

fun Array_filter :: "('a \<Rightarrow> error + bool) \<Rightarrow> 'a list \<Rightarrow> error + 'a list" where
  "Array_filter f [] = Inr []"
| "Array_filter f (x # xs) =
     (case f x of
        Inl err \<Rightarrow> Inl err
      | Inr keep \<Rightarrow>
          (case Array_filter f xs of
             Inl err \<Rightarrow> Inl err
           | Inr ys \<Rightarrow> Inr (if keep then x # ys else ys)))"

text \<open>\<open>el.dataset.id\<close>, a TypeError when \<open>el\<close> is \<open>null\<close>.\<close>

definition dataset_id_of :: "li option \<Rightarrow> error + jsstring" where
  "dataset_id_of el = (case el of None \<Rightarrow> Inl TypeError | Some l \<Rightarrow> Inr (dataset_id l))"

text \<open>
  The \<open>keyup\<close> listener of the input element, given the event, the current
  \<open>inputEl.value\<close> and the string that \<open>crypto.randomUUID()\<close> returns.
\<close>

definition inputEl_keyup ::
  "dom_event \<Rightarrow> jsstring \<Rightarrow> jsstring \<Rightarrow> app \<Rightarrow> error option \<times> app" where
  "inputEl_keyup event inputEl_value uuid s =
     (if (key event = ascii ''Enter'' \<or> keyCode event = 13) \<and> trim inputEl_value \<noteq> [] then
        (let newTodo = \<lparr>value = inputEl_value, id' = uuid, completed = False\<rparr>;
             s1 = s\<lparr>todos := todos s @ [newTodo]\<rparr>;
             todoEl = createTodoItemEl newTodo
         in (None, save_listener s1))
      else (None, s))"

definition toggle_handler :: "dom_event \<Rightarrow> app \<Rightarrow> error option \<times> app" where
  "toggle_handler e s =
     (let el = closest_data_id (target e) in
      case Array_map
             (\<lambda>todo. case dataset_id_of el of
                        Inl err \<Rightarrow> Inl err
                      | Inr i \<Rightarrow>
                          Inr (if id' todo = i then todo\<lparr>completed := \<not> completed todo\<rparr>
                               else todo))
             (todos s) of
        Inl err \<Rightarrow> (Some err, s)
      | Inr ts \<Rightarrow> (None, save_listener (s\<lparr>todos := ts\<rparr>)))"

definition remove_handler :: "dom_event \<Rightarrow> app \<Rightarrow> error option \<times> app" where
  "remove_handler e s =
     (let el = closest_data_id (target e) in
      case Array_filter
             (\<lambda>todo. case dataset_id_of el of
                        Inl err \<Rightarrow> Inl err
                      | Inr i \<Rightarrow> Inr (id' todo \<noteq> i))
             (todos s) of
        Inl err \<Rightarrow> (Some err, s)
      | Inr ts \<Rightarrow> (None, save_listener (s\<lparr>todos := ts\<rparr>)))"

text \<open>
  The edit handler tests \<open>event.keyCode\<close>, where \<open>event\<close> is not its parameter \<open>e\<close> but
  the global \<open>window.event\<close>; it is a parameter here. \<open>el.querySelector\<close> throws on
  \<open>null\<close> before the array is touched.
\<close>

definition value_handler :: "dom_event \<Rightarrow> dom_event \<Rightarrow> app \<Rightarrow> error option \<times> app" where
  "value_handler event e s =
     (let el = closest_data_id (target e) in
      if keyCode event = 13 then
        (let s1 = s\<lparr>trace := trace s @ [PreventDefault]\<rparr> in
         case el of
           None \<Rightarrow> (Some TypeError, s1)
         | Some l \<Rightarrow>
             (let content = textContent l in
              (None,
               save_listener
                 (s1\<lparr>todos :=
                       map (\<lambda>todo. if id' todo = dataset_id l then todo\<lparr>value := content\<rparr>
                                   else todo)
                         (todos s1)\<rparr>))))
      else (None, s))"

text \<open>
  \<open>delegate\<close> runs the handler when the target of the event matches the selector
  \<open>[data-todo="..."]\<close>, given here by the attribute value it asks for.
\<close>

definition delegate ::
  "jsstring \<Rightarrow> (dom_event \<Rightarrow> app \<Rightarrow> error option \<times> app) \<Rightarrow> dom_event \<Rightarrow> app \<Rightarrow>
   error option \<times> app" where
  "delegate selector handler e s =
     (if data_todo (target e) = Some selector then handler e s else (None, s))"

text \<open>
  The list element has two \<open>click\<close> listeners, run in the order of their registration,
  and one \<open>keydown\<close> listener.
\<close>

definition listEl_click :: "dom_event \<Rightarrow> app \<Rightarrow> error option \<times> app" where
  "listEl_click e s =
     (let (x1, s1) = delegate (ascii ''toggle'') toggle_handler e s;
          (x2, s2) = delegate (ascii ''remove'') remove_handler e s1
      in (if x1 = None then x2 else x1, s2))"

definition listEl_keydown :: "dom_event \<Rightarrow> dom_event \<Rightarrow> app \<Rightarrow> error option \<times> app" where
  "listEl_keydown event e s = delegate (ascii ''value'') (value_handler event) e s"

subsection \<open>Start and runs\<close>

text \<open>
  \<open>App\<close> reads the stored todos and renders once. The list and the counter start with
  whatever the page shell holds; the first render overwrites both.
\<close>

definition App :: "jsstring option \<Rightarrow> jsstring \<Rightarrow> error + app" where
  "App stored h =
     (case readTodosInStorage
             \<lparr>todos = [], localStorage = stored, location_hash = h, listEl = [],
              countEl = [], trace = []\<rparr> of
        Inl err \<Rightarrow> Inl err
      | Inr s \<Rightarrow> Inr (renderTodos s))"

text \<open>
  What the page receives: a key released in the input (with the input's value and the
  next UUID), a click or a key pressed in the list, a change of the fragment. While a
  listener runs, \<open>window.event\<close> is the event being dispatched.
\<close>

datatype input =
  InputKeyup dom_event jsstring jsstring
| ListClick dom_event
| ListKeydown dom_event
| HashChange jsstring

fun dispatch :: "input \<Rightarrow> app \<Rightarrow> error option \<times> app" where
  "dispatch (InputKeyup event v uuid) s = inputEl_keyup event v uuid s"
| "dispatch (ListClick e) s = listEl_click e s"
| "dispatch (ListKeydown e) s = listEl_keydown e e s"
| "dispatch (HashChange h) s = (None, renderTodos (s\<lparr>location_hash := h\<rparr>))"

text \<open>The states after each input of a sequence.\<close>

fun states :: "app \<Rightarrow> input list \<Rightarrow> app list" where
  "states s [] = []"
| "states s (i # ins) = snd (dispatch i s) # states (snd (dispatch i s)) ins"

text \<open>Every UUID drawn along a run is new to the collection at that moment.\<close>

fun fresh_ids :: "app \<Rightarrow> input list \<Rightarrow> bool" where
  "fresh_ids s [] = True"
| "fresh_ids s (i # ins) =
     ((case i of InputKeyup event v uuid \<Rightarrow> uuid \<notin> set (map id' (todos s)) | _ \<Rightarrow> True) \<and>
      fresh_ids (snd (dispatch i s)) ins)"

subsection \<open>What one input does to the store\<close>

text \<open>
  An input is \<open>quiet\<close> when it leaves the collection and the stored value as they were
  and writes nothing; it is \<open>saved\<close> when it ends by storing the collection and then
  rendering.
\<close>

definition quiet :: "app \<Rightarrow> app \<Rightarrow> bool" where
  "quiet s s' \<longleftrightarrow>
     todos s' = todos s \<and> localStorage s' = localStorage s \<and>
     (trace s' = trace s \<or> trace s' = trace s @ [PreventDefault] \<or>
      trace s' = trace s @ [Render])"

definition saved :: "app \<Rightarrow> app \<Rightarrow> bool" where
  "saved s s' \<longleftrightarrow>
     localStorage s' = Some (JSON_stringify (todos s')) \<and>
     (trace s' = trace s @ [SetItem (JSON_stringify (todos s')), Render] \<or>
      trace s' = trace s @ [PreventDefault, SetItem (JSON_stringify (todos s')), Render])"

section \<open>Sample data\<close>

text \<open>
  The collection of the specification's filtering example, a page holding it, the page
  right after a start on empty storage, and events on rows.
\<close>

definition sample_todos :: "todo list" where
  "sample_todos =
     [\<lparr>value = ascii ''A'', id' = ascii ''1'', completed = False\<rparr>,
      \<lparr>value = ascii ''B'', id' = ascii ''2'', completed = True\<rparr>,
      \<lparr>value = ascii ''C'', id' = ascii ''3'', completed = False\<rparr>]"

definition sample_page :: "jsstring \<Rightarrow> app" where
  "sample_page h =
     \<lparr>todos = sample_todos, localStorage = Some (JSON_stringify sample_todos),
      location_hash = h, listEl = [], countEl = [], trace = []\<rparr>"

definition empty_page :: app where
  "empty_page =
     \<lparr>todos = [], localStorage = None, location_hash = [], listEl = [],
      countEl = ascii ''0 items left'', trace = [Render]\<rparr>"

definition key_event :: "jsstring \<Rightarrow> nat \<Rightarrow> bool \<Rightarrow> dom_event" where
  "key_event k c sh =
     \<lparr>key = k, keyCode = c, shiftKey = sh,
      target = \<lparr>data_todo = None, closest_data_id = None\<rparr>\<rparr>"

definition click_on :: "jsstring \<Rightarrow> li option \<Rightarrow> dom_event" where
  "click_on part row =
     \<lparr>key = [], keyCode = 0, shiftKey = False,
      target = \<lparr>data_todo = Some part, closest_data_id = row\<rparr>\<rparr>"

definition key_on :: "nat \<Rightarrow> bool \<Rightarrow> li option \<Rightarrow> dom_event" where
  "key_on c sh row =
     \<lparr>key = (if c = 13 then ascii ''Enter'' else ascii ''a''), keyCode = c, shiftKey = sh,
      target = \<lparr>data_todo = Some (ascii ''value''), closest_data_id = row\<rparr>\<rparr>"

definition sample_row :: "jsstring \<Rightarrow> jsstring \<Rightarrow> li" where
  "sample_row i text =
     \<lparr>dataset_id = i, toggle_class = ascii ''bx-square'', value_class = [],
      textContent = text\<rparr>"

definition sample_run :: "input list" where
  "sample_run =
     [InputKeyup (key_event (ascii ''Enter'') 13 False) (ascii ''buy milk'') (ascii ''1''),
      InputKeyup (key_event (ascii ''Enter'') 13 False) (ascii ''call'') (ascii ''2''),
      ListClick (click_on (ascii ''toggle'') (Some (sample_row (ascii ''1'') (ascii ''buy milk'')))),
      ListKeydown (key_on 13 False (Some (sample_row (ascii ''2'') (ascii ''call home'')))),
      HashChange (ascii ''#/active''),
      ListClick (click_on (ascii ''remove'') (Some (sample_row (ascii ''1'') (ascii ''buy milk''))))]"

section \<open>Lemmas on the persistence format\<close>

lemma take_bit_4_less: "take_bit 4 (c::16 word) < 16"
  by (simp add: word_less_nat_alt take_bit_eq_mod unat_mod)

lemma drop_bit_12_less: "drop_bit 12 (c::16 word) < 16"
proof -
  have "unat c < 65536" using unsigned_less [of c] by simp
  then show ?thesis
    by (simp add: word_less_nat_alt drop_bit_eq_div unat_div)
qed

lemma word_less_16_cases:
  fixes d :: "16 word"
  assumes "d < 16"
  shows "d \<in> {0, 1, 2, 3, 4, 5, 6, 7, 8, 9, 10, 11, 12, 13, 14, 15}"
proof -
  have "unat d < 16" using assms by (simp add: word_less_nat_alt)
  then have "unat d \<in> {0, 1, 2, 3, 4, 5, 6, 7, 8, 9, 10, 11, 12, 13, 14, 15}"
    by simp arith
  then have "word_of_nat (unat d) \<in>
      (word_of_nat ` {0, 1, 2, 3, 4, 5, 6, 7, 8, 9, 10, 11, 12, 13, 14, 15} :: 16 word set)"
    by (rule imageI)
  then show ?thesis by simp
qed

lemma unhex_hexdigit:
  assumes "d < 16"
  shows "unhex (hexdigit d) = Some d"
  using word_less_16_cases [OF assms]
  by (elim insertE; simp add: unhex_def hexdigit_def)

lemma nibbles_join:
  "push_bit 12 (drop_bit 12 c) OR push_bit 8 (take_bit 4 (drop_bit 8 c)) OR
   push_bit 4 (take_bit 4 (drop_bit 4 c)) OR take_bit 4 c = (c::16 word)"
proof (rule bit_word_eqI)
  fix n :: nat
  assume "n < LENGTH(16)"
  then have n: "n < 16" by simp
  consider "n < 4" | "4 \<le> n" "n < 8" | "8 \<le> n" "n < 12" | "12 \<le> n" by linarith
  then show "bit (push_bit 12 (drop_bit 12 c) OR push_bit 8 (take_bit 4 (drop_bit 8 c)) OR
      push_bit 4 (take_bit 4 (drop_bit 4 c)) OR take_bit 4 c) n = bit c n"
    using n by cases (auto simp add: bit_simps)
qed

lemma hex4_nibbles:
  "hex4 (hexdigit (drop_bit 12 c)) (hexdigit (take_bit 4 (drop_bit 8 c)))
        (hexdigit (take_bit 4 (drop_bit 4 c))) (hexdigit (take_bit 4 c)) = Some c"
proof -
  have a: "unhex (hexdigit (drop_bit 12 c)) = Some (drop_bit 12 c)"
    by (rule unhex_hexdigit [OF drop_bit_12_less])
  have b: "unhex (hexdigit (take_bit 4 x)) = Some (take_bit 4 x)" for x :: "16 word"
    by (rule unhex_hexdigit [OF take_bit_4_less])
  show ?thesis
    by (simp only: hex4_def a b prod.case option.case nibbles_join)
qed

lemma parseString_UnicodeEscape:
  "parseString (UnicodeEscape c @ rest) = consTo c (parseString rest)"
  by (simp add: UnicodeEscape_def hex4_nibbles)

lemma parseString_quoteUnit:
  "parseString (quoteUnit c @ rest) = consTo c (parseString rest)"
proof (cases "c < 0x20 \<or> is_lead c \<or> is_trail c")
  case True
  then show ?thesis
    unfolding quoteUnit_def
    by (simp only: parseString_UnicodeEscape split: if_split) (auto simp: unescape_def)
next
  case False
  then have "\<not> c < 0x20" by simp
  then show ?thesis
    using False unfolding quoteUnit_def
    by (auto simp: unescape_def)
qed

lemma parseString_surrogate:
  "is_lead c \<or> is_trail c \<Longrightarrow> parseString (c # rest) = consTo c (parseString rest)"
  by (auto simp: is_lead_def is_trail_def word_le_nat_alt word_less_nat_alt)

lemma parseString_quoteUnits:
  "parseString (quoteUnits s @ 0x22 # rest) = Some (s, rest)"
proof (induction s rule: quoteUnits.induct)
  case (1 c d ds)
  show ?case
  proof (cases "is_lead c \<and> is_trail d")
    case True
    then have "quoteUnits (c # d # ds) = c # d # quoteUnits ds" by simp
    with True "1.IH"(1) show ?thesis
      by (simp add: parseString_surrogate consTo_def del: parseString.simps quoteUnits.simps)
  next
    case False
    then have "quoteUnits (c # d # ds) = quoteUnit c @ quoteUnits (d # ds)" by auto
    with False "1.IH"(2) show ?thesis
      by (simp add: parseString_quoteUnit consTo_def del: parseString.simps quoteUnits.simps)
  qed
next
  case (2 c)
  show ?case
    by (simp add: parseString_quoteUnit consTo_def del: parseString.simps) simp
next
  case 3
  show ?case by simp
qed

lemma parseQuoted_QuoteJSONString:
  "parseQuoted (QuoteJSONString s @ rest) = Some (s, rest)"
  by (simp add: parseQuoted_def QuoteJSONString_def expect_def parseString_quoteUnits
      del: parseString.simps)

lemma expect_append: "expect p (p @ rest) = Some rest"
  by (simp add: expect_def)

lemma parseKey_QuoteJSONString:
  "parseKey k (QuoteJSONString k @ ascii '':'' @ rest) = Some rest"
  by (simp add: parseKey_def parseQuoted_QuoteJSONString expect_append)

lemma parseBool_literal:
  "parseBool ((if b then ascii ''true'' else ascii ''false'') @ rest) = Some (b, rest)"
  by (simp add: parseBool_def expect_def ascii_def)

lemma parseTodo_SerializeJSONObject:
  "parseTodo (SerializeJSONObject t @ rest) = Some (t, rest)"
  by (simp add: parseTodo_def SerializeJSONObject_def expect_append parseKey_QuoteJSONString
      parseQuoted_QuoteJSONString parseBool_literal del: parseString.simps)

lemma joinComma_Cons:
  "joinComma (map f (t # ts)) = f t @ concat (map (\<lambda>x. ascii '','' @ f x) ts)"
  by (induction ts arbitrary: t) simp_all

lemma parseElements_tail:
  "parseElements (concat (map (\<lambda>x. ascii '','' @ SerializeJSONObject x) ts) @ ascii '']'') =
   Some ts"
proof (induction ts)
  case Nil
  show ?case by (simp add: parseElements.simps)
next
  case (Cons t ts)
  have "ascii '','' @ SerializeJSONObject t @ rest \<noteq> ascii '']''" for rest
    by (simp add: ascii_def)
  then show ?case
    using Cons.IH
    by (subst parseElements.simps)
      (simp add: expect_append parseTodo_SerializeJSONObject)
qed

lemma SerializeJSONObject_not_bracket: "SerializeJSONObject t @ rest \<noteq> ascii '']''"
  by (simp add: SerializeJSONObject_def ascii_def)

lemma JSON_parse_stringify: "JSON_parse (JSON_stringify ts) = Some ts"
proof (cases ts)
  case Nil
  then show ?thesis
    by (simp add: JSON_parse_def JSON_stringify_def expect_append)
next
  case (Cons t ts')
  have "JSON_stringify ts =
      ascii ''['' @ SerializeJSONObject t @
      concat (map (\<lambda>x. ascii '','' @ SerializeJSONObject x) ts') @ ascii '']''"
    unfolding JSON_stringify_def Cons joinComma_Cons by simp
  then show ?thesis
    using Cons
    by (simp add: JSON_parse_def expect_append SerializeJSONObject_not_bracket
        parseTodo_SerializeJSONObject parseElements_tail)
qed

section \<open>Lemmas on rendering and on the input\<close>

lemma createTodoItemEl_inj: "inj createTodoItemEl"
proof (rule injI)
  fix a b :: todo
  assume eq: "createTodoItemEl a = createTodoItemEl b"
  then have "id' a = id' b" "value a = value b"
    by (simp_all add: createTodoItemEl_def)
  moreover have "completed a = completed b"
  proof -
    from eq have "toggle_class (createTodoItemEl a) = toggle_class (createTodoItemEl b)"
      by simp
    then show ?thesis
      by (simp add: createTodoItemEl_def ascii_def split: if_splits)
  qed
  ultimately show "a = b" by simp
qed

lemma dropWhile_all: "(\<forall>x\<in>set (dropWhile P xs). P x) \<longleftrightarrow> (\<forall>x\<in>set xs. P x)"
proof
  assume a: "\<forall>x\<in>set (dropWhile P xs). P x"
  have "dropWhile P xs = []"
  proof (rule ccontr)
    assume n: "dropWhile P xs \<noteq> []"
    then have "\<not> P (hd (dropWhile P xs))" by (rule hd_dropWhile)
    moreover from n have "hd (dropWhile P xs) \<in> set (dropWhile P xs)" by simp
    ultimately show False using a by blast
  qed
  then show "\<forall>x\<in>set xs. P x" by (simp add: dropWhile_eq_Nil_conv)
next
  assume "\<forall>x\<in>set xs. P x"
  then show "\<forall>x\<in>set (dropWhile P xs). P x"
    using set_dropWhileD by fastforce
qed

lemma trim_empty_iff: "trim s = [] \<longleftrightarrow> list_all is_whitespace s"
  by (simp add: trim_def dropWhile_eq_Nil_conv dropWhile_all list_all_iff)

section \<open>Lemmas on the handlers\<close>

lemma Array_map_Inr: "Array_map (\<lambda>x. Inr (f x)) xs = Inr (map f xs)"
  by (induction xs) simp_all

lemma Array_map_Inl: "Array_map (\<lambda>x. Inl err) xs = (if xs = [] then Inr [] else Inl err)"
  by (cases xs) simp_all

lemma Array_filter_Inr: "Array_filter (\<lambda>x. Inr (p x)) xs = Inr (filter p xs)"
  by (induction xs) simp_all

lemma Array_filter_Inl: "Array_filter (\<lambda>x. Inl err) xs = (if xs = [] then Inr [] else Inl err)"
  by (cases xs) simp_all

lemma todos_renderTodos: "todos (renderTodos s) = todos s"
  by (simp add: renderTodos_def Let_def)

lemma todos_save_listener: "todos (save_listener s) = todos s"
  by (simp add: save_listener_def saveTodos_def todos_renderTodos)

lemma localStorage_save_listener:
  "localStorage (save_listener s) = Some (JSON_stringify (todos s))"
  by (simp add: save_listener_def saveTodos_def renderTodos_def Let_def)

lemma trace_save_listener:
  "trace (save_listener s) = trace s @ [SetItem (JSON_stringify (todos s)), Render]"
  by (simp add: save_listener_def saveTodos_def renderTodos_def Let_def)

lemma todos_update_same: "todos s = ts \<Longrightarrow> s\<lparr>todos := ts\<rparr> = s"
  by auto

lemma toggle_handler_found:
  "closest_data_id (target e) = Some el \<Longrightarrow>
   toggle_handler e s =
     (None,
      save_listener
        (s\<lparr>todos :=
             map (\<lambda>t. if id' t = dataset_id el then t\<lparr>completed := \<not> completed t\<rparr> else t)
               (todos s)\<rparr>))"
  by (simp add: toggle_handler_def dataset_id_of_def Array_map_Inr)

lemma toggle_handler_missing:
  "closest_data_id (target e) = None \<Longrightarrow>
   toggle_handler e s = (if todos s = [] then (None, save_listener s) else (Some TypeError, s))"
  by (simp add: toggle_handler_def dataset_id_of_def Array_map_Inl todos_update_same)

lemma remove_handler_found:
  "closest_data_id (target e) = Some el \<Longrightarrow>
   remove_handler e s =
     (None, save_listener (s\<lparr>todos := filter (\<lambda>t. id' t \<noteq> dataset_id el) (todos s)\<rparr>))"
  by (simp add: remove_handler_def dataset_id_of_def Array_filter_Inr)

lemma remove_handler_missing:
  "closest_data_id (target e) = None \<Longrightarrow>
   remove_handler e s = (if todos s = [] then (None, save_listener s) else (Some TypeError, s))"
  by (simp add: remove_handler_def dataset_id_of_def Array_filter_Inl todos_update_same)

lemma value_handler_found:
  "closest_data_id (target e) = Some el \<Longrightarrow>
   value_handler event e s =
     (if keyCode event = 13 then
        (None,
         save_listener
           (s\<lparr>trace := trace s @ [PreventDefault],
              todos :=
                map (\<lambda>t. if id' t = dataset_id el then t\<lparr>value := textContent el\<rparr> else t)
                  (todos s)\<rparr>))
      else (None, s))"
  by (simp add: value_handler_def Let_def)

lemma value_handler_missing:
  "closest_data_id (target e) = None \<Longrightarrow>
   value_handler event e s =
     (if keyCode event = 13 then (Some TypeError, s\<lparr>trace := trace s @ [PreventDefault]\<rparr>)
      else (None, s))"
  by (simp add: value_handler_def Let_def)

lemma map_toggle_twice:
  "map (\<lambda>t. if id' t = k then t\<lparr>completed := \<not> completed t\<rparr> else t)
     (map (\<lambda>t. if id' t = k then t\<lparr>completed := \<not> completed t\<rparr> else t) ts) = ts"
  by (induction ts) simp_all

lemma filter_distinct_key:
  "distinct (map f xs) \<Longrightarrow> i < length xs \<Longrightarrow> f (xs ! i) = k \<Longrightarrow>
   filter (\<lambda>x. f x \<noteq> k) xs = take i xs @ drop (Suc i) xs"
proof (induction xs arbitrary: i)
  case Nil
  then show ?case by simp
next
  case (Cons x xs)
  show ?case
  proof (cases i)
    case 0
    with Cons.prems have k: "f x = k" and "f x \<notin> f ` set xs" by simp_all
    then have "\<forall>y\<in>set xs. f y \<noteq> k" by blast
    with 0 k show ?thesis by simp
  next
    case (Suc j)
    with Cons.prems have "f (xs ! j) = k" "j < length xs" "f x \<notin> f ` set xs" by simp_all
    then have "f x \<noteq> k" by (metis imageI nth_mem)
    with Suc Cons show ?thesis by simp
  qed
qed

section \<open>Lemmas on runs\<close>

lemma toggle_handler_ids: "map id' (todos (snd (toggle_handler e s))) = map id' (todos s)"
proof (cases "closest_data_id (target e)")
  case None
  then show ?thesis by (simp add: toggle_handler_missing todos_save_listener)
next
  case (Some el)
  have "map id' (map (\<lambda>t. if id' t = k then t\<lparr>completed := \<not> completed t\<rparr> else t) ts) =
      map id' ts" for k and ts :: "todo list"
    by (induction ts) simp_all
  with Some show ?thesis by (simp add: toggle_handler_found todos_save_listener)
qed

lemma remove_handler_distinct:
  assumes "distinct (map id' (todos s))"
  shows "distinct (map id' (todos (snd (remove_handler e s))))"
proof (cases "closest_data_id (target e)")
  case None
  with assms show ?thesis by (simp add: remove_handler_missing todos_save_listener)
next
  case (Some el)
  with assms show ?thesis
    by (simp add: remove_handler_found todos_save_listener distinct_map_filter)
qed

lemma value_handler_ids: "map id' (todos (snd (value_handler event e s))) = map id' (todos s)"
proof (cases "closest_data_id (target e)")
  case None
  then show ?thesis by (simp add: value_handler_missing)
next
  case (Some el)
  have "map id' (map (\<lambda>t. if id' t = k then t\<lparr>value := c\<rparr> else t) ts) = map id' ts"
    for k c and ts :: "todo list"
    by (induction ts) simp_all
  with Some show ?thesis by (simp add: value_handler_found todos_save_listener)
qed

lemma inputEl_keyup_todos:
  "todos (snd (inputEl_keyup event v uuid s)) = todos s \<or>
   todos (snd (inputEl_keyup event v uuid s)) =
     todos s @ [\<lparr>value = v, id' = uuid, completed = False\<rparr>]"
  by (simp add: inputEl_keyup_def Let_def todos_save_listener)

lemma listEl_click_cases:
  "listEl_click e s = (None, s) \<or> listEl_click e s = toggle_handler e s \<or>
   listEl_click e s = remove_handler e s"
proof -
  have "ascii ''toggle'' \<noteq> ascii ''remove''" by (simp add: ascii_def)
  then show ?thesis
    by (cases "toggle_handler e s"; cases "remove_handler e s")
      (auto simp: listEl_click_def delegate_def)
qed

lemma listEl_keydown_cases:
  "listEl_keydown event e s = (None, s) \<or> listEl_keydown event e s = value_handler event e s"
  by (simp add: listEl_keydown_def delegate_def)

lemma dispatch_distinct:
  assumes "distinct (map id' (todos s))"
    and "case i of InputKeyup event v uuid \<Rightarrow> uuid \<notin> set (map id' (todos s)) | _ \<Rightarrow> True"
  shows "distinct (map id' (todos (snd (dispatch i s))))"
proof (cases i)
  case (InputKeyup event v uuid)
  with assms inputEl_keyup_todos [of event v uuid s] show ?thesis by auto
next
  case (ListClick e)
  with assms listEl_click_cases [of e s] remove_handler_distinct [of s e]
    toggle_handler_ids [of e s]
  show ?thesis by auto
next
  case (ListKeydown e)
  with assms listEl_keydown_cases [of e e s] value_handler_ids [of e e s]
  show ?thesis by auto
next
  case (HashChange h)
  with assms show ?thesis by (simp add: todos_renderTodos)
qed

lemma states_distinct:
  "distinct (map id' (todos s0)) \<Longrightarrow> fresh_ids s0 ins \<Longrightarrow> s \<in> set (states s0 ins) \<Longrightarrow>
   distinct (map id' (todos s))"
proof (induction ins arbitrary: s0)
  case Nil
  then show ?case by simp
next
  case (Cons i ins)
  from Cons.prems(1,2) have d: "distinct (map id' (todos (snd (dispatch i s0))))"
    by (intro dispatch_distinct) simp_all
  from Cons.prems(3)
  consider "s = snd (dispatch i s0)" | "s \<in> set (states (snd (dispatch i s0)) ins)"
    by auto
  then show ?case
  proof cases
    case 1
    with d show ?thesis by simp
  next
    case 2
    with Cons.IH [OF d] Cons.prems(2) show ?thesis by simp
  qed
qed

lemma saved_save_listener: "trace s1 = trace s \<Longrightarrow> saved s (save_listener s1)"
  by (simp add: saved_def localStorage_save_listener trace_save_listener todos_save_listener)

lemma toggle_handler_step:
  "quiet s (snd (toggle_handler e s)) \<or> saved s (snd (toggle_handler e s))"
proof (cases "closest_data_id (target e)")
  case None
  then show ?thesis
    by (simp add: toggle_handler_missing saved_save_listener) (simp add: quiet_def)
next
  case (Some el)
  then show ?thesis by (simp add: toggle_handler_found saved_save_listener)
qed

lemma remove_handler_step:
  "quiet s (snd (remove_handler e s)) \<or> saved s (snd (remove_handler e s))"
proof (cases "closest_data_id (target e)")
  case None
  then show ?thesis
    by (simp add: remove_handler_missing saved_save_listener) (simp add: quiet_def)
next
  case (Some el)
  then show ?thesis by (simp add: remove_handler_found saved_save_listener)
qed

lemma value_handler_step:
  "quiet s (snd (value_handler event e s)) \<or> saved s (snd (value_handler event e s))"
proof (cases "closest_data_id (target e)")
  case None
  then show ?thesis by (simp add: value_handler_missing quiet_def)
next
  case (Some el)
  then show ?thesis
    by (simp add: value_handler_found saved_def localStorage_save_listener trace_save_listener
        todos_save_listener quiet_def)
qed

lemma inputEl_keyup_step:
  "quiet s (snd (inputEl_keyup event v uuid s)) \<or> saved s (snd (inputEl_keyup event v uuid s))"
  by (simp add: inputEl_keyup_def Let_def saved_save_listener) (simp add: quiet_def)

lemma dispatch_step: "quiet s (snd (dispatch i s)) \<or> saved s (snd (dispatch i s))"
proof (cases i)
  case (InputKeyup event v uuid)
  then show ?thesis using inputEl_keyup_step [of s event v uuid] by simp
next
  case (ListClick e)
  have "quiet s s" by (simp add: quiet_def)
  with ListClick show ?thesis
    using listEl_click_cases [of e s] toggle_handler_step [of s e] remove_handler_step [of s e]
    by auto
next
  case (ListKeydown e)
  have "quiet s s" by (simp add: quiet_def)
  with ListKeydown show ?thesis
    using listEl_keydown_cases [of e e s] value_handler_step [of s e e]
    by auto
next
  case (HashChange h)
  then show ?thesis by (simp add: quiet_def renderTodos_def Let_def)
qed

lemma JSON_stringify_nonempty: "JSON_stringify ts \<noteq> []"
  by (simp add: JSON_stringify_def ascii_def)

lemma readTodosInStorage_iff:
  "readTodosInStorage s = Inr s \<longleftrightarrow>
   JSON_parse (stored_text (localStorage s)) = Some (todos s)"
proof -
  have "(s\<lparr>todos := x\<rparr> = s) = (x = todos s)" for x
  proof
    assume "s\<lparr>todos := x\<rparr> = s"
    then have "todos (s\<lparr>todos := x\<rparr>) = todos s" by (rule arg_cong)
    then show "x = todos s" by simp
  next
    assume "x = todos s"
    then show "s\<lparr>todos := x\<rparr> = s" by simp
  qed
  then show ?thesis
    by (simp add: readTodosInStorage_def split: option.splits)
qed

lemma readTodosInStorage_saved:
  "localStorage s = Some (JSON_stringify (todos s)) \<Longrightarrow> readTodosInStorage s = Inr s"
  by (simp add: readTodosInStorage_iff stored_text_def JSON_stringify_nonempty
      JSON_parse_stringify)

lemma readTodosInStorage_quiet:
  "readTodosInStorage s = Inr s \<Longrightarrow> todos s' = todos s \<Longrightarrow>
   localStorage s' = localStorage s \<Longrightarrow> readTodosInStorage s' = Inr s'"
  by (simp add: readTodosInStorage_iff)

lemma dispatch_sync:
  assumes "readTodosInStorage s = Inr s"
  shows "readTodosInStorage (snd (dispatch i s)) = Inr (snd (dispatch i s))"
  using dispatch_step [of s i]
proof
  assume "quiet s (snd (dispatch i s))"
  with assms show ?thesis by (auto simp: quiet_def intro: readTodosInStorage_quiet)
next
  assume "saved s (snd (dispatch i s))"
  then show ?thesis by (simp add: saved_def readTodosInStorage_saved)
qed

lemma states_sync:
  "readTodosInStorage s0 = Inr s0 \<Longrightarrow> s \<in> set (states s0 ins) \<Longrightarrow>
   readTodosInStorage s = Inr s"
proof (induction ins arbitrary: s0)
  case Nil
  then show ?case by simp
next
  case (Cons i ins)
  from Cons.prems(1)
  have d: "readTodosInStorage (snd (dispatch i s0)) = Inr (snd (dispatch i s0))"
    by (rule dispatch_sync)
  from Cons.prems(2)
  consider "s = snd (dispatch i s0)" | "s \<in> set (states (snd (dispatch i s0)) ins)"
    by auto
  then show ?case
  proof cases
    case 1
    with d show ?thesis by simp
  next
    case 2
    with Cons.IH [OF d] show ?thesis by simp
  qed
qed

lemma App_sync: "App stored h = Inr s0 \<Longrightarrow> readTodosInStorage s0 = Inr s0"
  unfolding readTodosInStorage_iff
  by (auto simp: App_def readTodosInStorage_def renderTodos_def Let_def split: option.splits)

text \<open>The sample run, evaluated: the collection after each input, and its stored text.\<close>

lemma sample_run_todos:
  "map todos (states empty_page sample_run) =
     [[\<lparr>value = ascii ''buy milk'', id' = ascii ''1'', completed = False\<rparr>],
      [\<lparr>value = ascii ''buy milk'', id' = ascii ''1'', completed = False\<rparr>,
       \<lparr>value = ascii ''call'', id' = ascii ''2'', completed = False\<rparr>],
      [\<lparr>value = ascii ''buy milk'', id' = ascii ''1'', completed = True\<rparr>,
       \<lparr>value = ascii ''call'', id' = ascii ''2'', completed = False\<rparr>],
      [\<lparr>value = ascii ''buy milk'', id' = ascii ''1'', completed = True\<rparr>,
       \<lparr>value = ascii ''call home'', id' = ascii ''2'', completed = False\<rparr>],
      [\<lparr>value = ascii ''buy milk'', id' = ascii ''1'', completed = True\<rparr>,
       \<lparr>value = ascii ''call home'', id' = ascii ''2'', completed = False\<rparr>],
      [\<lparr>value = ascii ''call home'', id' = ascii ''2'', completed = False\<rparr>]]"
  by (simp add: sample_run_def empty_page_def key_event_def click_on_def key_on_def
      sample_row_def inputEl_keyup_def listEl_click_def listEl_keydown_def delegate_def
      toggle_handler_def remove_handler_def value_handler_def dataset_id_of_def Let_def
      todos_save_listener todos_renderTodos trim_def is_whitespace_def ascii_def)

lemma sample_run_nonempty: "states empty_page sample_run \<noteq> []"
  by (simp add: sample_run_def)

lemma sample_run_last:
  "todos (last (states empty_page sample_run)) =
     [\<lparr>value = ascii ''call home'', id' = ascii ''2'', completed = False\<rparr>]"
proof -
  have "todos (last (states empty_page sample_run)) =
      last (map todos (states empty_page sample_run))"
    using sample_run_nonempty by (simp add: last_map)
  then show ?thesis by (simp add: sample_run_todos)
qed

lemma sample_run_stored:
  \<open>JSON_stringify [\<lparr>value = ascii ''call home'', id' = ascii ''2'', completed = False\<rparr>] =
    ascii ''[{"value":"call home","id":"2","completed":false}]''\<close>
  by (simp add: JSON_stringify_def SerializeJSONObject_def QuoteJSONString_def quoteUnit_def
      is_lead_def is_trail_def ascii_def)

lemma sample_run_parsed:
  \<open>JSON_parse (ascii ''[{"value":"call home","id":"2","completed":false}]'') =
    Some [\<lparr>value = ascii ''call home'', id' = ascii ''2'', completed = False\<rparr>]\<close>
  by (simp add: JSON_parse_def parseTodo_def parseKey_def parseQuoted_def parseBool_def
      expect_def consTo_def parseElements.simps ascii_def)

lemma sample_run_storage:
  "localStorage (last (states empty_page sample_run)) =
     Some (JSON_stringify [\<lparr>value = ascii ''call home'', id' = ascii ''2'', completed = False\<rparr>])"
  by (simp add: sample_run_def empty_page_def key_event_def click_on_def key_on_def
      sample_row_def inputEl_keyup_def listEl_click_def listEl_keydown_def delegate_def
      toggle_handler_def remove_handler_def value_handler_def dataset_id_of_def Let_def
      todos_save_listener todos_renderTodos localStorage_save_listener trim_def
      is_whitespace_def ascii_def)

lemma App_empty: "App None [] = Inr empty_page"
  by (simp add: App_def readTodosInStorage_def stored_text_def JSON_parse_def expect_def
      renderTodos_def Let_def getURLHash_def filterNotCompletedTodos_def empty_page_def
      decimal.simps ascii_def)

text \<open>
  Each of the four operations ends in the \<open>save\<close> listener, run on the page that holds
  the new collection.
\<close>

lemma dispatch_add:
  assumes "key event = ascii ''Enter'' \<or> keyCode event = 13" and "trim v \<noteq> []"
  shows "dispatch (InputKeyup event v uuid) s =
    (None, save_listener (s\<lparr>todos := todos s @ [\<lparr>value = v, id' = uuid, completed = False\<rparr>]\<rparr>))"
  using assms by (simp add: inputEl_keyup_def Let_def)

lemma dispatch_toggle:
  assumes "data_todo (target e) = Some (ascii ''toggle'')"
    and "closest_data_id (target e) = Some el"
  shows "dispatch (ListClick e) s =
    (None,
     save_listener
       (s\<lparr>todos :=
            map (\<lambda>t. if id' t = dataset_id el then t\<lparr>completed := \<not> completed t\<rparr> else t)
              (todos s)\<rparr>))"
proof -
  have "ascii ''toggle'' \<noteq> ascii ''remove''" by (simp add: ascii_def)
  with assms show ?thesis
    by (simp add: listEl_click_def delegate_def toggle_handler_found)
qed

lemma dispatch_remove:
  assumes "data_todo (target e) = Some (ascii ''remove'')"
    and "closest_data_id (target e) = Some el"
  shows "dispatch (ListClick e) s =
    (None, save_listener (s\<lparr>todos := filter (\<lambda>t. id' t \<noteq> dataset_id el) (todos s)\<rparr>))"
proof -
  have "ascii ''remove'' \<noteq> ascii ''toggle''" by (simp add: ascii_def)
  with assms show ?thesis
    by (simp add: listEl_click_def delegate_def remove_handler_found)
qed

lemma dispatch_edit:
  assumes "data_todo (target e) = Some (ascii ''value'')" and "keyCode e = 13"
    and "closest_data_id (target e) = Some el"
  shows "dispatch (ListKeydown e) s =
    (None,
     save_listener
       (s\<lparr>trace := trace s @ [PreventDefault],
          todos :=
            map (\<lambda>t. if id' t = dataset_id el then t\<lparr>value := textContent el\<rparr> else t)
              (todos s)\<rparr>))"
  using assms by (simp add: listEl_keydown_def delegate_def value_handler_found)

section \<open>The claims\<close>

text \<open>
  C1. Along every run of the page from a successful start, whatever the inputs, the
  stored value read back with \<open>JSON.parse\<close> is the in-memory collection, item by item
  and field by field, after the start and after each input. Each input either writes
  nothing and leaves collection and store as they were, or ends with the write of the
  new collection followed by the render. And each of the four operations does write: a
  successful Add, a Toggle or a Remove on a row found, and an Edit-commit on a row found
  each leave the new collection in memory, store its text, which reads back as that
  collection, and perform the write and then the render, in that order, the Edit-commit
  after suppressing the default action.
\<close>

theorem persisted_equals_memory:
  assumes "App stored h = Inr s0" and "s \<in> set (s0 # states s0 ins)"
  shows "readTodosInStorage s = Inr s \<and>
    JSON_parse (stored_text (localStorage s)) = Some (todos s) \<and>
    (\<forall>i. (todos (snd (dispatch i s)) = todos s \<and>
          localStorage (snd (dispatch i s)) = localStorage s \<and>
          (trace (snd (dispatch i s)) = trace s \<or>
           trace (snd (dispatch i s)) = trace s @ [PreventDefault] \<or>
           trace (snd (dispatch i s)) = trace s @ [Render])) \<or>
         (localStorage (snd (dispatch i s)) = Some (JSON_stringify (todos (snd (dispatch i s)))) \<and>
          JSON_parse (JSON_stringify (todos (snd (dispatch i s)))) =
            Some (todos (snd (dispatch i s))) \<and>
          (trace (snd (dispatch i s)) =
             trace s @ [SetItem (JSON_stringify (todos (snd (dispatch i s)))), Render] \<or>
           trace (snd (dispatch i s)) =
             trace s @
             [PreventDefault, SetItem (JSON_stringify (todos (snd (dispatch i s)))), Render]))) \<and>
    (\<forall>event v uuid.
       (key event = ascii ''Enter'' \<or> keyCode event = 13) \<longrightarrow> trim v \<noteq> [] \<longrightarrow>
       (let ts = todos s @ [\<lparr>value = v, id' = uuid, completed = False\<rparr>];
            s' = snd (dispatch (InputKeyup event v uuid) s)
        in todos s' = ts \<and> localStorage s' = Some (JSON_stringify ts) \<and>
           JSON_parse (stored_text (localStorage s')) = Some ts \<and>
           trace s' = trace s @ [SetItem (JSON_stringify ts), Render])) \<and>
    (\<forall>e el.
       data_todo (target e) = Some (ascii ''toggle'') \<longrightarrow>
       closest_data_id (target e) = Some el \<longrightarrow>
       (let ts = map (\<lambda>t. if id' t = dataset_id el then t\<lparr>completed := \<not> completed t\<rparr> else t)
                   (todos s);
            s' = snd (dispatch (ListClick e) s)
        in todos s' = ts \<and> localStorage s' = Some (JSON_stringify ts) \<and>
           JSON_parse (stored_text (localStorage s')) = Some ts \<and>
           trace s' = trace s @ [SetItem (JSON_stringify ts), Render])) \<and>
    (\<forall>e el.
       data_todo (target e) = Some (ascii ''remove'') \<longrightarrow>
       closest_data_id (target e) = Some el \<longrightarrow>
       (let ts = filter (\<lambda>t. id' t \<noteq> dataset_id el) (todos s);
            s' = snd (dispatch (ListClick e) s)
        in todos s' = ts \<and> localStorage s' = Some (JSON_stringify ts) \<and>
           JSON_parse (stored_text (localStorage s')) = Some ts \<and>
           trace s' = trace s @ [SetItem (JSON_stringify ts), Render])) \<and>
    (\<forall>e el.
       data_todo (target e) = Some (ascii ''value'') \<longrightarrow> keyCode e = 13 \<longrightarrow>
       closest_data_id (target e) = Some el \<longrightarrow>
       (let ts = map (\<lambda>t. if id' t = dataset_id el then t\<lparr>value := textContent el\<rparr> else t)
                   (todos s);
            s' = snd (dispatch (ListKeydown e) s)
        in todos s' = ts \<and> localStorage s' = Some (JSON_stringify ts) \<and>
           JSON_parse (stored_text (localStorage s')) = Some ts \<and>
           trace s' = trace s @ [PreventDefault, SetItem (JSON_stringify ts), Render]))"
proof -
  have sync: "readTodosInStorage s = Inr s"
  proof (cases "s = s0")
    case True
    with assms(1) show ?thesis by (simp add: App_sync)
  next
    case False
    with assms(2) have "s \<in> set (states s0 ins)" by simp
    with App_sync [OF assms(1)] show ?thesis by (rule states_sync)
  qed
  then have parsed: "JSON_parse (stored_text (localStorage s)) = Some (todos s)"
    by (simp add: readTodosInStorage_iff)
  have "quiet s (snd (dispatch i s)) \<or> saved s (snd (dispatch i s))" for i
    by (rule dispatch_step)
  then have steps:
    "\<forall>i. (todos (snd (dispatch i s)) = todos s \<and>
          localStorage (snd (dispatch i s)) = localStorage s \<and>
          (trace (snd (dispatch i s)) = trace s \<or>
           trace (snd (dispatch i s)) = trace s @ [PreventDefault] \<or>
           trace (snd (dispatch i s)) = trace s @ [Render])) \<or>
         (localStorage (snd (dispatch i s)) = Some (JSON_stringify (todos (snd (dispatch i s)))) \<and>
          JSON_parse (JSON_stringify (todos (snd (dispatch i s)))) =
            Some (todos (snd (dispatch i s))) \<and>
          (trace (snd (dispatch i s)) =
             trace s @ [SetItem (JSON_stringify (todos (snd (dispatch i s)))), Render] \<or>
           trace (snd (dispatch i s)) =
             trace s @
             [PreventDefault, SetItem (JSON_stringify (todos (snd (dispatch i s)))), Render]))"
    unfolding quiet_def saved_def
    by (simp only: JSON_parse_stringify simp_thms)
  have listener:
    "todos (save_listener u) = todos u \<and>
     localStorage (save_listener u) = Some (JSON_stringify (todos u)) \<and>
     JSON_parse (stored_text (localStorage (save_listener u))) = Some (todos u) \<and>
     trace (save_listener u) = trace u @ [SetItem (JSON_stringify (todos u)), Render]" for u
    by (simp add: todos_save_listener localStorage_save_listener trace_save_listener
        stored_text_def JSON_stringify_nonempty JSON_parse_stringify)
  have stored: "JSON_parse (stored_text (Some (JSON_stringify ts))) = Some ts" for ts
    by (simp add: stored_text_def JSON_stringify_nonempty JSON_parse_stringify)
  have add: "\<forall>event v uuid.
       (key event = ascii ''Enter'' \<or> keyCode event = 13) \<longrightarrow> trim v \<noteq> [] \<longrightarrow>
       (let ts = todos s @ [\<lparr>value = v, id' = uuid, completed = False\<rparr>];
            s' = snd (dispatch (InputKeyup event v uuid) s)
        in todos s' = ts \<and> localStorage s' = Some (JSON_stringify ts) \<and>
           JSON_parse (stored_text (localStorage s')) = Some ts \<and>
           trace s' = trace s @ [SetItem (JSON_stringify ts), Render])"
    by (simp add: dispatch_add listener stored Let_def del: dispatch.simps)
  have toggle: "\<forall>e el.
       data_todo (target e) = Some (ascii ''toggle'') \<longrightarrow>
       closest_data_id (target e) = Some el \<longrightarrow>
       (let ts = map (\<lambda>t. if id' t = dataset_id el then t\<lparr>completed := \<not> completed t\<rparr> else t)
                   (todos s);
            s' = snd (dispatch (ListClick e) s)
        in todos s' = ts \<and> localStorage s' = Some (JSON_stringify ts) \<and>
           JSON_parse (stored_text (localStorage s')) = Some ts \<and>
           trace s' = trace s @ [SetItem (JSON_stringify ts), Render])"
    by (simp add: dispatch_toggle listener stored Let_def del: dispatch.simps)
  have remove: "\<forall>e el.
       data_todo (target e) = Some (ascii ''remove'') \<longrightarrow>
       closest_data_id (target e) = Some el \<longrightarrow>
       (let ts = filter (\<lambda>t. id' t \<noteq> dataset_id el) (todos s);
            s' = snd (dispatch (ListClick e) s)
        in todos s' = ts \<and> localStorage s' = Some (JSON_stringify ts) \<and>
           JSON_parse (stored_text (localStorage s')) = Some ts \<and>
           trace s' = trace s @ [SetItem (JSON_stringify ts), Render])"
    by (simp add: dispatch_remove listener stored Let_def del: dispatch.simps)
  have edit: "\<forall>e el.
       data_todo (target e) = Some (ascii ''value'') \<longrightarrow> keyCode e = 13 \<longrightarrow>
       closest_data_id (target e) = Some el \<longrightarrow>
       (let ts = map (\<lambda>t. if id' t = dataset_id el then t\<lparr>value := textContent el\<rparr> else t)
                   (todos s);
            s' = snd (dispatch (ListKeydown e) s)
        in todos s' = ts \<and> localStorage s' = Some (JSON_stringify ts) \<and>
           JSON_parse (stored_text (localStorage s')) = Some ts \<and>
           trace s' = trace s @ [PreventDefault, SetItem (JSON_stringify ts), Render])"
    by (simp add: dispatch_edit listener stored Let_def del: dispatch.simps)
  from sync parsed steps add toggle remove edit show ?thesis
    by (intro conjI)
qed

theorem persisted_equals_memory_witness:
  \<open>App None [] = Inr empty_page \<and>
   last (states empty_page sample_run) \<in> set (empty_page # states empty_page sample_run) \<and>
   todos (last (states empty_page sample_run)) =
     [\<lparr>value = ascii ''call home'', id' = ascii ''2'', completed = False\<rparr>] \<and>
   localStorage (last (states empty_page sample_run)) =
     Some (ascii ''[{"value":"call home","id":"2","completed":false}]'') \<and>
   JSON_parse (stored_text (localStorage (last (states empty_page sample_run)))) =
     Some [\<lparr>value = ascii ''call home'', id' = ascii ''2'', completed = False\<rparr>] \<and>
   empty_page \<in> set (empty_page # states empty_page sample_run) \<and>
   keyCode (key_event (ascii ''Enter'') 13 False) = 13 \<and>
   trim (ascii ''buy milk'') = ascii ''buy milk'' \<and>
   trace (snd (dispatch
     (InputKeyup (key_event (ascii ''Enter'') 13 False) (ascii ''buy milk'') (ascii ''1''))
     empty_page)) =
     [Render,
      SetItem (JSON_stringify
        [\<lparr>value = ascii ''buy milk'', id' = ascii ''1'', completed = False\<rparr>]),
      Render] \<and>
   data_todo (target (click_on (ascii ''toggle'')
     (Some (sample_row (ascii ''2'') (ascii ''call home''))))) = Some (ascii ''toggle'') \<and>
   trace (snd (dispatch
     (ListClick (click_on (ascii ''toggle'')
       (Some (sample_row (ascii ''2'') (ascii ''call home'')))))
     (last (states empty_page sample_run)))) =
     trace (last (states empty_page sample_run)) @
     [SetItem (JSON_stringify
        [\<lparr>value = ascii ''call home'', id' = ascii ''2'', completed = True\<rparr>]),
      Render]\<close>
proof -
  have mem: "last (states empty_page sample_run) \<in>
      set (empty_page # states empty_page sample_run)"
    using sample_run_nonempty by simp
  have mem0: "empty_page \<in> set (empty_page # states empty_page sample_run)"
    by simp
  note at_last = persisted_equals_memory [OF App_empty mem]
  note at_start = persisted_equals_memory [OF App_empty mem0]
  from at_last
  have parsed: "JSON_parse (stored_text (localStorage (last (states empty_page sample_run)))) =
      Some (todos (last (states empty_page sample_run)))"
    by blast
  have enter: "keyCode (key_event (ascii ''Enter'') 13 False) = 13"
    by (simp add: key_event_def)
  have trimmed: "trim (ascii ''buy milk'') = ascii ''buy milk''"
    by (simp add: trim_def is_whitespace_def ascii_def)
  from at_start
  have "\<forall>event v uuid.
       (key event = ascii ''Enter'' \<or> keyCode event = 13) \<longrightarrow> trim v \<noteq> [] \<longrightarrow>
       (let ts = todos empty_page @ [\<lparr>value = v, id' = uuid, completed = False\<rparr>];
            s' = snd (dispatch (InputKeyup event v uuid) empty_page)
        in todos s' = ts \<and> localStorage s' = Some (JSON_stringify ts) \<and>
           JSON_parse (stored_text (localStorage s')) = Some ts \<and>
           trace s' = trace empty_page @ [SetItem (JSON_stringify ts), Render])"
    by (elim conjE)
  from this [rule_format, of "key_event (ascii ''Enter'') 13 False" "ascii ''buy milk''"
      "ascii ''1''"] enter trimmed
  have added: "trace (snd (dispatch
     (InputKeyup (key_event (ascii ''Enter'') 13 False) (ascii ''buy milk'') (ascii ''1''))
     empty_page)) =
     [Render,
      SetItem (JSON_stringify
        [\<lparr>value = ascii ''buy milk'', id' = ascii ''1'', completed = False\<rparr>]),
      Render]"
    by (simp add: Let_def empty_page_def ascii_def del: dispatch.simps)
  have tog: "data_todo (target (click_on (ascii ''toggle'')
     (Some (sample_row (ascii ''2'') (ascii ''call home''))))) = Some (ascii ''toggle'')"
    "closest_data_id (target (click_on (ascii ''toggle'')
     (Some (sample_row (ascii ''2'') (ascii ''call home''))))) =
     Some (sample_row (ascii ''2'') (ascii ''call home''))"
    by (simp_all add: click_on_def)
  from at_last
  have "\<forall>e el.
       data_todo (target e) = Some (ascii ''toggle'') \<longrightarrow>
       closest_data_id (target e) = Some el \<longrightarrow>
       (let ts = map (\<lambda>t. if id' t = dataset_id el then t\<lparr>completed := \<not> completed t\<rparr> else t)
                   (todos (last (states empty_page sample_run)));
            s' = snd (dispatch (ListClick e) (last (states empty_page sample_run)))
        in todos s' = ts \<and> localStorage s' = Some (JSON_stringify ts) \<and>
           JSON_parse (stored_text (localStorage s')) = Some ts \<and>
           trace s' = trace (last (states empty_page sample_run)) @
             [SetItem (JSON_stringify ts), Render])"
    by (elim conjE)
  from this [rule_format, OF tog]
  have toggled: "trace (snd (dispatch
     (ListClick (click_on (ascii ''toggle'')
       (Some (sample_row (ascii ''2'') (ascii ''call home'')))))
     (last (states empty_page sample_run)))) =
     trace (last (states empty_page sample_run)) @
     [SetItem (JSON_stringify
        [\<lparr>value = ascii ''call home'', id' = ascii ''2'', completed = True\<rparr>]),
      Render]"
    by (simp add: Let_def sample_run_last sample_row_def ascii_def del: dispatch.simps)
  from mem parsed added toggled show ?thesis
    by (simp only: App_empty sample_run_last sample_run_storage sample_run_stored mem0 enter
        trimmed tog simp_thms)
qed

text \<open>
  C2. With a row found for the target, a key pressed in the list commits an edit exactly
  when the target is an editable text region and the key code is 13, whether or not
  Shift is held. The commit suppresses the default action, replaces the value of the
  items whose id is the row's by the row's current text, keeps the id and completed flag
  of every item and every other item as it was, then stores and renders. Any other key
  pressed changes nothing.
\<close>

theorem edit_commit:
  assumes "closest_data_id (target e) = Some el"
  shows "dispatch (ListKeydown e) s =
      (if data_todo (target e) = Some (ascii ''value'') \<and> keyCode e = 13 then
         (None,
          save_listener
            (s\<lparr>trace := trace s @ [PreventDefault],
               todos :=
                 map (\<lambda>t. if id' t = dataset_id el then t\<lparr>value := textContent el\<rparr> else t)
                   (todos s)\<rparr>))
       else (None, s)) \<and>
    length (todos (snd (dispatch (ListKeydown e) s))) = length (todos s) \<and>
    map id' (todos (snd (dispatch (ListKeydown e) s))) = map id' (todos s) \<and>
    map completed (todos (snd (dispatch (ListKeydown e) s))) = map completed (todos s) \<and>
    (\<forall>n < length (todos s).
       id' (todos s ! n) \<noteq> dataset_id el \<longrightarrow>
       todos (snd (dispatch (ListKeydown e) s)) ! n = todos s ! n)"
proof -
  let ?f = "\<lambda>t. if id' t = dataset_id el then t\<lparr>value := textContent el\<rparr> else t"
  have run: "dispatch (ListKeydown e) s =
      (if data_todo (target e) = Some (ascii ''value'') \<and> keyCode e = 13 then
         (None,
          save_listener (s\<lparr>trace := trace s @ [PreventDefault], todos := map ?f (todos s)\<rparr>))
       else (None, s))"
    using assms by (simp add: listEl_keydown_def delegate_def value_handler_found)
  have ids: "map id' (map ?f ts) = map id' ts" for ts :: "todo list"
    by (induction ts) simp_all
  have flags: "map completed (map ?f ts) = map completed ts" for ts :: "todo list"
    by (induction ts) simp_all
  have after: "todos (snd (dispatch (ListKeydown e) s)) = todos s \<or>
      todos (snd (dispatch (ListKeydown e) s)) = map ?f (todos s)"
    by (simp add: run todos_save_listener del: dispatch.simps)
  from after show ?thesis
  proof
    assume same: "todos (snd (dispatch (ListKeydown e) s)) = todos s"
    show ?thesis by (simp only: same simp_thms run [symmetric])
  next
    assume upd: "todos (snd (dispatch (ListKeydown e) s)) = map ?f (todos s)"
    show ?thesis
      by (simp only: upd ids flags simp_thms run [symmetric]) simp
  qed
qed

theorem edit_commit_witness:
  "closest_data_id (target (key_on 13 False (Some (sample_row (ascii ''2'') (ascii ''new text''))))) =
     Some (sample_row (ascii ''2'') (ascii ''new text'')) \<and>
   todos (snd (dispatch
     (ListKeydown (key_on 13 False (Some (sample_row (ascii ''2'') (ascii ''new text'')))))
     (sample_page []))) =
     [\<lparr>value = ascii ''A'', id' = ascii ''1'', completed = False\<rparr>,
      \<lparr>value = ascii ''new text'', id' = ascii ''2'', completed = True\<rparr>,
      \<lparr>value = ascii ''C'', id' = ascii ''3'', completed = False\<rparr>] \<and>
   dispatch
     (ListKeydown (key_on 65 False (Some (sample_row (ascii ''2'') (ascii ''new text'')))))
     (sample_page []) = (None, sample_page [])"
  using edit_commit [of
      "key_on 13 False (Some (sample_row (ascii ''2'') (ascii ''new text'')))"
      "sample_row (ascii ''2'') (ascii ''new text'')" "sample_page []"]
    edit_commit [of
      "key_on 65 False (Some (sample_row (ascii ''2'') (ascii ''new text'')))"
      "sample_row (ascii ''2'') (ascii ''new text'')" "sample_page []"]
  by (simp add: key_on_def sample_row_def sample_page_def sample_todos_def
      todos_save_listener ascii_def)

text \<open>
  The specification keeps Shift+Enter out of the commit. The handler does not: Enter
  pressed with Shift held in the editable region of the second sample row commits the
  edit.
\<close>

theorem shift_enter_commits:
  "shiftKey (key_on 13 True (Some (sample_row (ascii ''2'') (ascii ''new text'')))) \<and>
   map value (todos (snd (dispatch
     (ListKeydown (key_on 13 True (Some (sample_row (ascii ''2'') (ascii ''new text'')))))
     (sample_page [])))) = [ascii ''A'', ascii ''new text'', ascii ''C''] \<and>
   map value (todos (sample_page [])) = [ascii ''A'', ascii ''B'', ascii ''C'']"
  by (simp add: key_on_def sample_row_def sample_page_def sample_todos_def
      listEl_keydown_def delegate_def value_handler_def Let_def todos_save_listener ascii_def)

text \<open>
  C3. When the lookup of the enclosing row fails, no handler changes the
  collection, but the handlers are not silent. The toggle and the remove handler throw a
  TypeError and leave the page as it was when the collection is not empty; on an empty
  collection they store and render it. The edit handler, when the key code is 13,
  suppresses the default action and throws a TypeError; on any other key it does nothing.
\<close>

theorem lookup_failure:
  assumes "closest_data_id (target e) = None"
  shows "todos (snd (toggle_handler e s)) = todos s \<and>
    todos (snd (remove_handler e s)) = todos s \<and>
    todos (snd (value_handler event e s)) = todos s \<and>
    toggle_handler e s = (if todos s = [] then (None, save_listener s) else (Some TypeError, s)) \<and>
    remove_handler e s = (if todos s = [] then (None, save_listener s) else (Some TypeError, s)) \<and>
    value_handler event e s =
      (if keyCode event = 13 then (Some TypeError, s\<lparr>trace := trace s @ [PreventDefault]\<rparr>)
       else (None, s))"
  using assms
  by (simp add: toggle_handler_missing remove_handler_missing value_handler_missing
      todos_save_listener)

theorem lookup_failure_witness:
  "closest_data_id (target (click_on (ascii ''toggle'') None)) = None \<and>
   toggle_handler (click_on (ascii ''toggle'') None) (sample_page []) =
     (Some TypeError, sample_page []) \<and>
   remove_handler (click_on (ascii ''remove'') None) (sample_page []) =
     (Some TypeError, sample_page []) \<and>
   fst (value_handler (key_on 13 False None) (key_on 13 False None) (sample_page [])) =
     Some TypeError \<and>
   value_handler (key_on 65 False None) (key_on 65 False None) (sample_page []) =
     (None, sample_page []) \<and>
   toggle_handler (click_on (ascii ''toggle'') None) empty_page =
     (None, save_listener empty_page)"
  using lookup_failure [of "click_on (ascii ''toggle'') None" "sample_page []"]
    lookup_failure [of "click_on (ascii ''remove'') None" "sample_page []"]
    lookup_failure [of "key_on 13 False None" "sample_page []" "key_on 13 False None"]
    lookup_failure [of "key_on 65 False None" "sample_page []" "key_on 65 False None"]
    lookup_failure [of "click_on (ascii ''toggle'') None" empty_page]
  by (simp add: click_on_def key_on_def sample_page_def sample_todos_def empty_page_def)

text \<open>
  The specification asks for a silent no-op there. A click on a remove control with no
  enclosing row, the sample collection being shown, throws instead.
\<close>

theorem lookup_failure_throws:
  "data_todo (target (click_on (ascii ''remove'') None)) = Some (ascii ''remove'') \<and>
   closest_data_id (target (click_on (ascii ''remove'') None)) = None \<and>
   fst (dispatch (ListClick (click_on (ascii ''remove'') None)) (sample_page [])) =
     Some TypeError"
  by (simp add: click_on_def sample_page_def sample_todos_def listEl_click_def delegate_def
      toggle_handler_def remove_handler_def dataset_id_of_def ascii_def)

text \<open>
  C4. The rows shown are the rows of the items that the filter keeps, in the order of the
  collection: the items not completed under \<open>active\<close>, the completed ones under
  \<open>completed\<close>, all of them under any other filter string, the empty one included.
  Distinct items give distinct rows.
\<close>

theorem renderTodos_rows:
  "listEl (renderTodos s) =
     map createTodoItemEl
       (if getURLHash (location_hash s) = ascii ''active''
        then filter (\<lambda>t. completed t = False) (todos s)
        else if getURLHash (location_hash s) = ascii ''completed''
        then filter (\<lambda>t. completed t = True) (todos s)
        else todos s) \<and>
   subseq (listEl (renderTodos s)) (map createTodoItemEl (todos s)) \<and>
   inj createTodoItemEl"
  by (simp add: renderTodos_def Let_def createTodoItemEl_inj subseq_map)

theorem renderTodos_rows_witness:
  "map textContent (listEl (renderTodos (sample_page (ascii ''#/active'')))) =
     [ascii ''A'', ascii ''C''] \<and>
   map textContent (listEl (renderTodos (sample_page (ascii ''#/completed'')))) =
     [ascii ''B''] \<and>
   map textContent (listEl (renderTodos (sample_page (ascii ''#/all'')))) =
     [ascii ''A'', ascii ''B'', ascii ''C''] \<and>
   map textContent (listEl (renderTodos (sample_page (ascii ''#/done'')))) =
     [ascii ''A'', ascii ''B'', ascii ''C''] \<and>
   map textContent (listEl (renderTodos (sample_page []))) =
     [ascii ''A'', ascii ''B'', ascii ''C'']"
  using renderTodos_rows [of "sample_page (ascii ''#/active'')"]
    renderTodos_rows [of "sample_page (ascii ''#/completed'')"]
    renderTodos_rows [of "sample_page (ascii ''#/all'')"]
    renderTodos_rows [of "sample_page (ascii ''#/done'')"]
    renderTodos_rows [of "sample_page []"]
  by (simp add: sample_page_def sample_todos_def getURLHash_def createTodoItemEl_def ascii_def)

text \<open>
  C5. The counter shows the number of items of the whole collection that are not
  completed, followed by \<open>items left\<close>, and does not depend on the filter.
\<close>

theorem renderTodos_count:
  "countEl (renderTodos s) =
     decimal (length (filter (\<lambda>t. completed t = False) (todos s))) @ ascii '' items left'' \<and>
   countEl (renderTodos (s\<lparr>location_hash := h\<rparr>)) = countEl (renderTodos s)"
  by (simp add: renderTodos_def Let_def filterNotCompletedTodos_def)

theorem renderTodos_count_witness:
  "countEl (renderTodos (sample_page (ascii ''#/all''))) = ascii ''2 items left'' \<and>
   countEl (renderTodos (sample_page (ascii ''#/active''))) = ascii ''2 items left'' \<and>
   countEl (renderTodos (sample_page (ascii ''#/completed''))) = ascii ''2 items left''"
  using renderTodos_count [of "sample_page (ascii ''#/all'')" "ascii ''#/active''"]
    renderTodos_count [of "sample_page (ascii ''#/all'')" "ascii ''#/completed''"]
  by (simp add: sample_page_def sample_todos_def decimal.simps ascii_def)

text \<open>
  C6. On Enter in the input: when the text is empty or white space only (that is, when
  its trimmed text is empty) nothing changes; otherwise one item with the generated id
  and \<open>completed = false\<close> is appended, after the items already there, which stay as
  they were.
\<close>

theorem inputEl_keyup_add:
  assumes "key event = ascii ''Enter'' \<or> keyCode event = 13"
  shows "(list_all is_whitespace v \<longrightarrow> inputEl_keyup event v uuid s = (None, s)) \<and>
    (\<not> list_all is_whitespace v \<longrightarrow>
       fst (inputEl_keyup event v uuid s) = None \<and>
       todos (snd (inputEl_keyup event v uuid s)) =
         todos s @ [\<lparr>value = v, id' = uuid, completed = False\<rparr>]) \<and>
    (trim v = [] \<longleftrightarrow> list_all is_whitespace v)"
  using assms
  by (simp add: inputEl_keyup_def Let_def trim_empty_iff save_listener_def saveTodos_def
      renderTodos_def)

theorem inputEl_keyup_add_witness:
  "key (key_event (ascii ''Enter'') 13 False) = ascii ''Enter'' \<and>
   inputEl_keyup (key_event (ascii ''Enter'') 13 False) (ascii ''  '') (ascii ''4'')
     (sample_page []) = (None, sample_page []) \<and>
   inputEl_keyup (key_event (ascii ''Enter'') 13 False) [] (ascii ''4'')
     (sample_page []) = (None, sample_page []) \<and>
   todos (snd (inputEl_keyup (key_event (ascii ''Enter'') 13 False) (ascii ''buy milk'')
     (ascii ''4'') (sample_page []))) =
     sample_todos @ [\<lparr>value = ascii ''buy milk'', id' = ascii ''4'', completed = False\<rparr>]"
  using inputEl_keyup_add [of "key_event (ascii ''Enter'') 13 False" "ascii ''  ''"
      "ascii ''4''" "sample_page []"]
    inputEl_keyup_add [of "key_event (ascii ''Enter'') 13 False" "[]"
      "ascii ''4''" "sample_page []"]
    inputEl_keyup_add [of "key_event (ascii ''Enter'') 13 False" "ascii ''buy milk''"
      "ascii ''4''" "sample_page []"]
  by (simp add: key_event_def is_whitespace_def sample_page_def ascii_def)

text \<open>
  C7. With a row found, Toggle inverts the completed flag of the items whose id is the
  row's, keeps every id and value and every other item, in place; a second Toggle on a
  row with the same id gives the original collection back.
\<close>

theorem toggle_handler_inverts:
  assumes "closest_data_id (target e) = Some el"
    and "closest_data_id (target e') = Some el'"
    and "dataset_id el' = dataset_id el"
  shows "fst (toggle_handler e s) = None \<and>
    todos (snd (toggle_handler e s)) =
      map (\<lambda>t. if id' t = dataset_id el then t\<lparr>completed := \<not> completed t\<rparr> else t) (todos s) \<and>
    map id' (todos (snd (toggle_handler e s))) = map id' (todos s) \<and>
    map value (todos (snd (toggle_handler e s))) = map value (todos s) \<and>
    todos (snd (toggle_handler e' (snd (toggle_handler e s)))) = todos s"
proof -
  let ?f = "\<lambda>t. if id' t = dataset_id el then t\<lparr>completed := \<not> completed t\<rparr> else t"
  have first: "toggle_handler e s = (None, save_listener (s\<lparr>todos := map ?f (todos s)\<rparr>))"
    using assms(1) by (rule toggle_handler_found)
  have t1: "todos (snd (toggle_handler e s)) = map ?f (todos s)"
    by (simp add: first todos_save_listener)
  have t2: "todos (snd (toggle_handler e' s1)) = map ?f (todos s1)" for s1
    using toggle_handler_found [OF assms(2), of s1] assms(3)
    by (simp add: todos_save_listener)
  have ids: "map id' (map ?f ts) = map id' ts" for ts :: "todo list"
    by (induction ts) simp_all
  have vals: "map value (map ?f ts) = map value ts" for ts :: "todo list"
    by (induction ts) simp_all
  have twice: "map ?f (map ?f (todos s)) = todos s"
    by (rule map_toggle_twice)
  have f1: "fst (toggle_handler e s) = None"
    by (simp add: first)
  show ?thesis
    by (simp only: f1 t2 t1 ids vals twice simp_thms)
qed

theorem toggle_handler_inverts_witness:
  "closest_data_id (target (click_on (ascii ''toggle'') (Some (sample_row (ascii ''2'') (ascii ''B''))))) =
     Some (sample_row (ascii ''2'') (ascii ''B'')) \<and>
   map completed (todos (snd (toggle_handler
     (click_on (ascii ''toggle'') (Some (sample_row (ascii ''2'') (ascii ''B''))))
     (sample_page [])))) = [False, False, False] \<and>
   todos (snd (toggle_handler
     (click_on (ascii ''toggle'') (Some (sample_row (ascii ''2'') (ascii ''B''))))
     (snd (toggle_handler
       (click_on (ascii ''toggle'') (Some (sample_row (ascii ''2'') (ascii ''B''))))
       (sample_page []))))) = sample_todos"
  using toggle_handler_inverts [of
      "click_on (ascii ''toggle'') (Some (sample_row (ascii ''2'') (ascii ''B'')))"
      "sample_row (ascii ''2'') (ascii ''B'')"
      "click_on (ascii ''toggle'') (Some (sample_row (ascii ''2'') (ascii ''B'')))"
      "sample_row (ascii ''2'') (ascii ''B'')" "sample_page []"]
  by (simp add: click_on_def sample_row_def sample_page_def sample_todos_def ascii_def)

text \<open>
  C8. With a row found, Remove keeps exactly the items whose id is not the row's, in
  their order. When no item has that id the collection is unchanged; when ids are unique
  and the item at some position has it, the result is the collection without that
  position.
\<close>

theorem remove_handler_drops:
  assumes "closest_data_id (target e) = Some el"
  shows "fst (remove_handler e s) = None \<and>
    todos (snd (remove_handler e s)) = filter (\<lambda>t. id' t \<noteq> dataset_id el) (todos s) \<and>
    subseq (todos (snd (remove_handler e s))) (todos s) \<and>
    (dataset_id el \<notin> set (map id' (todos s)) \<longrightarrow> todos (snd (remove_handler e s)) = todos s) \<and>
    (\<forall>i < length (todos s).
       distinct (map id' (todos s)) \<longrightarrow> id' (todos s ! i) = dataset_id el \<longrightarrow>
       todos (snd (remove_handler e s)) = take i (todos s) @ drop (Suc i) (todos s))"
proof -
  have "dataset_id el \<notin> set (map id' (todos s)) \<longrightarrow>
      filter (\<lambda>t. id' t \<noteq> dataset_id el) (todos s) = todos s"
    unfolding filter_id_conv by force
  then show ?thesis
    using assms
    by (simp add: remove_handler_found todos_save_listener filter_distinct_key)
qed

theorem remove_handler_drops_witness:
  "closest_data_id (target (click_on (ascii ''remove'') (Some (sample_row (ascii ''2'') (ascii ''B''))))) =
     Some (sample_row (ascii ''2'') (ascii ''B'')) \<and>
   map value (todos (snd (remove_handler
     (click_on (ascii ''remove'') (Some (sample_row (ascii ''2'') (ascii ''B''))))
     (sample_page [])))) = [ascii ''A'', ascii ''C''] \<and>
   todos (snd (remove_handler
     (click_on (ascii ''remove'') (Some (sample_row (ascii ''2'') (ascii ''B''))))
     (sample_page []))) = take 1 sample_todos @ drop 2 sample_todos \<and>
   todos (snd (remove_handler
     (click_on (ascii ''remove'') (Some (sample_row (ascii ''9'') (ascii ''B''))))
     (sample_page []))) = sample_todos"
  using remove_handler_drops [of
      "click_on (ascii ''remove'') (Some (sample_row (ascii ''2'') (ascii ''B'')))"
      "sample_row (ascii ''2'') (ascii ''B'')" "sample_page []"]
    remove_handler_drops [of
      "click_on (ascii ''remove'') (Some (sample_row (ascii ''9'') (ascii ''B'')))"
      "sample_row (ascii ''9'') (ascii ''B'')" "sample_page []"]
  by (simp add: click_on_def sample_row_def sample_page_def sample_todos_def ascii_def)

text \<open>
  C9. From an empty collection, along every run in which each UUID drawn is new to the
  collection at that moment, no two items ever share an id.
\<close>

theorem ids_unique:
  assumes "todos s0 = []" and "fresh_ids s0 ins" and "s \<in> set (s0 # states s0 ins)"
  shows "distinct (map id' (todos s))"
proof (cases "s = s0")
  case True
  with assms(1) show ?thesis by simp
next
  case False
  with assms(3) have "s \<in> set (states s0 ins)" by simp
  moreover from assms(1) have "distinct (map id' (todos s0))" by simp
  ultimately show ?thesis using assms(2) by (blast intro: states_distinct)
qed

theorem ids_unique_witness:
  "todos empty_page = [] \<and> fresh_ids empty_page sample_run \<and>
   states empty_page sample_run ! 1 \<in> set (empty_page # states empty_page sample_run) \<and>
   map id' (todos (states empty_page sample_run ! 1)) = [ascii ''1'', ascii ''2''] \<and>
   distinct (map id' (todos (states empty_page sample_run ! 1)))"
  using ids_unique [of empty_page sample_run "states empty_page sample_run ! 1"]
  by (simp add: sample_run_def empty_page_def key_event_def click_on_def key_on_def
      sample_row_def inputEl_keyup_def listEl_click_def listEl_keydown_def delegate_def
      toggle_handler_def remove_handler_def value_handler_def dataset_id_of_def Let_def
      todos_save_listener todos_renderTodos trim_def is_whitespace_def ascii_def)

text \<open>
  C10. A successful Add stores the text of the input as it is, not its trimmed text:
  trimming serves the test for emptiness only.
\<close>

theorem inputEl_keyup_raw_value:
  assumes "key event = ascii ''Enter'' \<or> keyCode event = 13" and "trim v \<noteq> []"
  shows "value (last (todos (snd (inputEl_keyup event v uuid s)))) = v"
  using assms
  by (simp add: inputEl_keyup_def Let_def save_listener_def saveTodos_def renderTodos_def)

theorem inputEl_keyup_raw_value_witness:
  "keyCode (key_event (ascii ''Enter'') 13 False) = 13 \<and>
   trim (ascii '' x '') = ascii ''x'' \<and>
   value (last (todos (snd (inputEl_keyup (key_event (ascii ''Enter'') 13 False)
     (ascii '' x '') (ascii ''4'') (sample_page []))))) = ascii '' x ''"
  using inputEl_keyup_raw_value [of "key_event (ascii ''Enter'') 13 False" "ascii '' x ''"
      "ascii ''4''" "sample_page []"]
  by (simp add: key_event_def trim_def is_whitespace_def ascii_def)

end
